theory Spec2Isabelle
  imports Complex_Main
begin

section \<open>Data model of the relay (backend/main.py)\<close>

text \<open>
  A \<^verbatim>\<open>WebSocket\<close> object is compared by identity (\<^verbatim>\<open>client != ws\<close>, \<^verbatim>\<open>list.remove\<close>),
  so a connection is modelled by the number that identifies the object.
\<close>

type_synonym conn = nat

text \<open>
  A \<^verbatim>\<open>str\<close> that comes out of \<^verbatim>\<open>json.loads\<close> can hold any code point, a lone
  surrogate included (the escape \<^verbatim>\<open>\ud800\<close> is valid JSON): it is the list of its code
  points. The room identifier is decoded from the URL path and holds no surrogate; it
  stays a \<open>string\<close>. \<open>str\<close> gives the code points of a literal.
\<close>

type_synonym pystr = "nat list"

definition str :: "string \<Rightarrow> pystr" where
  "str s = map of_char s"

text \<open>
  The value returned by \<^verbatim>\<open>ws.receive_json()\<close>: any JSON value. An object is the
  list of the items of the parsed \<^verbatim>\<open>dict\<close>. A Python \<^verbatim>\<open>int\<close> is \<open>JNum\<close>, a finite
  \<^verbatim>\<open>float\<close> is \<open>JFloat\<close>; the handler never inspects a number.
\<close>

datatype json =
    JNull
  | JBool bool
  | JNum int
  | JFloat rat
  | JStr pystr
  | JArr "json list"
  | JObj "(pystr \<times> json) list"

text \<open>\<^verbatim>\<open>rooms: Dict[str, List[WebSocket]]\<close>, room identifier to the list of its members.\<close>

type_synonym registry = "string \<rightharpoonup> conn list"

text \<open>
  The exceptions that can leave a statement of the handler. \<open>OtherError\<close> stands for
  any exception other than \<^verbatim>\<open>WebSocketDisconnect\<close> that the transport calls
  \<^verbatim>\<open>receive_json\<close> and \<^verbatim>\<open>send_json\<close> raise (a payload that is not JSON text,
  a channel already closed).
\<close>

datatype exn =
    WebSocketDisconnect
  | KeyError
  | ValueError
  | AttributeError
  | UnicodeEncodeError
  | OtherError

text \<open>The lines written by \<^verbatim>\<open>print\<close>, one constructor per format string.\<close>

datatype log_entry =
    ClientConnected string nat
  | Received string json json
  | UnknownType string json
  | ClientDisconnected string

text \<open>
  Everything the coroutine that is followed reads and writes: the global \<open>rooms\<close>,
  shared with the other coroutines, its calls of \<^verbatim>\<open>send_json\<close> that have returned
  (recipient and payload, in order), and the lines it has printed.
\<close>

record world =
  rooms :: registry
  outbox :: "(conn \<times> json) list"
  console :: "log_entry list"

text \<open>What one \<^verbatim>\<open>await ws.receive_json()\<close> does: it returns a value or raises.\<close>

datatype recv = Recv json | RecvRaises exn

text \<open>
  How the coroutine stands after a finite script of inbound events: still suspended
  in \<^verbatim>\<open>receive_json\<close> (the loop is \<^verbatim>\<open>while True\<close>), returned after the
  \<^verbatim>\<open>except\<close> clause, or left by an exception nothing catches.
\<close>

datatype outcome = Waiting | Returned | Raised exn

section \<open>Operations\<close>

subsection \<open>Join (lines 22 to 27)\<close>

text \<open>
  \<^verbatim>\<open>if room_id not in rooms: rooms[room_id] = []\<close>, then
  \<^verbatim>\<open>rooms[room_id].append(ws)\<close> and the \<^verbatim>\<open>print\<close> of the member count.
  The subscript of the second statement would raise \<^verbatim>\<open>KeyError\<close> on a missing key.
\<close>

definition join :: "conn \<Rightarrow> string \<Rightarrow> world \<Rightarrow> exn option \<times> world" where
  "join ws room_id w =
     (let rooms1 = (if rooms w room_id = None then (rooms w)(room_id \<mapsto> []) else rooms w)
      in case rooms1 room_id of
           None \<Rightarrow> (Some KeyError, w\<lparr>rooms := rooms1\<rparr>)
         | Some members \<Rightarrow>
             (None, w\<lparr>rooms := rooms1(room_id \<mapsto> members @ [ws]),
                       console := console w @ [ClientConnected room_id (length (members @ [ws]))]\<rparr>))"

text \<open>\<^verbatim>\<open>len(rooms[room_id])\<close> as an observer reads it; a room with no entry has no member.\<close>

definition member_count :: "registry \<Rightarrow> string \<Rightarrow> nat" where
  "member_count rs room_id = (case rs room_id of None \<Rightarrow> 0 | Some members \<Rightarrow> length members)"

subsection \<open>Leave: the body of the except clause (lines 51 to 54)\<close>

text \<open>
  \<^verbatim>\<open>rooms[room_id].remove(ws)\<close> raises \<^verbatim>\<open>KeyError\<close> when the room has no entry and
  \<^verbatim>\<open>ValueError\<close> when the list does not hold \<open>ws\<close>; otherwise it removes the first
  occurrence. Then the \<^verbatim>\<open>print\<close>, then \<^verbatim>\<open>del rooms[room_id]\<close> when the list is empty.
\<close>

definition leave :: "conn \<Rightarrow> string \<Rightarrow> world \<Rightarrow> exn option \<times> world" where
  "leave ws room_id w =
     (case rooms w room_id of
        None \<Rightarrow> (Some KeyError, w)
      | Some members \<Rightarrow>
          if ws \<notin> set members then (Some ValueError, w)
          else
            (let members' = remove1 ws members;
                 w1 = w\<lparr>rooms := (rooms w)(room_id \<mapsto> members'),
                        console := console w @ [ClientDisconnected room_id]\<rparr>
             in if members' = [] then (None, w1\<lparr>rooms := (rooms w1)(room_id := None)\<rparr>)
                else (None, w1)))"

subsection \<open>The other coroutines\<close>

text \<open>
  While the coroutine is suspended in an \<^verbatim>\<open>await\<close>, the coroutines of the other
  connections run. Two of their blocks write \<open>rooms\<close>, and neither holds an
  \<^verbatim>\<open>await\<close>: the join of lines 22 to 25 and the leave of lines 51 to 54. An action is
  one such block, run by the coroutine of connection \<open>c\<close> for its room \<open>r\<close>; \<open>act\<close> is
  what it does to \<open>rooms\<close> (nothing when the leave raises).
\<close>

datatype action = OtherJoin conn string | OtherLeave conn string

fun actor :: "action \<Rightarrow> conn" where
  "actor (OtherJoin c r) = c"
| "actor (OtherLeave c r) = c"

fun act :: "action \<Rightarrow> registry \<Rightarrow> registry" where
  "act (OtherJoin c r) rs = rooms (snd (join c r \<lparr>rooms = rs, outbox = [], console = []\<rparr>))"
| "act (OtherLeave c r) rs = rooms (snd (leave c r \<lparr>rooms = rs, outbox = [], console = []\<rparr>))"

text \<open>
  The actions of one suspension, in order. The flag tells whether \<open>room_id\<close> kept its
  entry after every one of them, that is, whether the list object that was
  \<^verbatim>\<open>rooms[room_id]\<close> before is still the one in \<open>rooms\<close>: an entry is deleted only when
  its list is empty, and a later join makes a new list.
\<close>

fun others_run :: "string \<Rightarrow> action list \<Rightarrow> registry \<Rightarrow> bool \<times> registry" where
  "others_run room_id [] rs = (True, rs)"
| "others_run room_id (a # as) rs =
     (case others_run room_id as (act a rs) of
        (alive, rs') \<Rightarrow> (act a rs room_id \<noteq> None \<and> alive, rs'))"

text \<open>
  What happens at one \<^verbatim>\<open>await client.send_json(data)\<close>: the actions of the other
  coroutines while it is suspended, then \<open>None\<close> when the send returns or \<open>Some e\<close>
  when it raises \<open>e\<close>. A broadcast is driven by the list of these for its sends, in
  order; the sends beyond the list return at once with nothing happening meanwhile.
  One iteration of the receive loop is driven by the actions of the others while
  \<^verbatim>\<open>receive_json\<close> is suspended, what the receive does, and the list for the sends.
\<close>

type_synonym send_event = "action list \<times> exn option"

datatype step = Step "action list" recv "send_event list"

subsection \<open>Classification and logging (lines 34 to 43)\<close>

text \<open>\<^verbatim>\<open>d.get(k, default)\<close> on the items of a dict.\<close>

definition dict_get :: "(pystr \<times> json) list \<Rightarrow> pystr \<Rightarrow> json \<Rightarrow> json" where
  "dict_get flds k dflt = (case map_of flds k of None \<Rightarrow> dflt | Some v \<Rightarrow> v)"

text \<open>The branch of the \<^verbatim>\<open>if\<close>/\<^verbatim>\<open>elif\<close>/\<^verbatim>\<open>else\<close> chain that \<open>message_type\<close> takes.\<close>

datatype category = Content | Signal | Unknown

definition classify :: "json \<Rightarrow> category" where
  "classify message_type =
     (if message_type \<in> set [JStr (str ''chat''), JStr (str ''image''), JStr (str ''file'')]
      then Content
      else if message_type \<in> set [JStr (str ''offer''), JStr (str ''answer''), JStr (str ''ice'')]
      then Signal
      else Unknown)"

text \<open>
  \<^verbatim>\<open>print\<close> encodes the line for \<^verbatim>\<open>sys.stdout\<close>, taken to be UTF-8 with strict
  errors, and raises \<^verbatim>\<open>UnicodeEncodeError\<close>, before it writes anything, when the line
  holds a surrogate. An f-string puts a \<^verbatim>\<open>str\<close> value into the line as it is; every
  other value goes through \<^verbatim>\<open>repr\<close>, which escapes the surrogates of the strings inside.
\<close>

definition encodable :: "pystr \<Rightarrow> bool" where
  "encodable s = list_all (\<lambda>c. c < 0xD800 \<or> 0xDFFF < c) s"

fun printable :: "json \<Rightarrow> bool" where
  "printable (JStr s) = encodable s"
| "printable v = True"

fun line_encodable :: "log_entry \<Rightarrow> bool" where
  "line_encodable (Received room_id message_type sender) =
     (printable message_type \<and> printable sender)"
| "line_encodable (UnknownType room_id message_type) = printable message_type"
| "line_encodable l = True"

definition print_line :: "log_entry \<Rightarrow> world \<Rightarrow> exn option \<times> world" where
  "print_line l w =
     (if line_encodable l then (None, w\<lparr>console := console w @ [l]\<rparr>)
      else (Some UnicodeEncodeError, w))"

definition log_message :: "string \<Rightarrow> (pystr \<times> json) list \<Rightarrow> world \<Rightarrow> exn option \<times> world" where
  "log_message room_id flds w =
     (let message_type = dict_get flds (str ''type'') JNull
      in case classify message_type of
           Content \<Rightarrow>
             print_line
               (Received room_id message_type (dict_get flds (str ''sender'') (JStr (str ''Unknown''))))
               w
         | Signal \<Rightarrow> (None, w)
         | Unknown \<Rightarrow> print_line (UnknownType room_id message_type) w)"

subsection \<open>Broadcast (lines 46 to 48)\<close>

text \<open>
  \<^verbatim>\<open>for client in rooms[room_id]: if client != ws: await client.send_json(data)\<close>.
  The list iterator keeps the list object and an index \<open>i\<close>; each round reads the
  list as it is then, and ends the loop when \<open>i\<close> is not below its length. The list is
  the one in \<open>rooms\<close>, which the other coroutines change while a send is suspended;
  once they have deleted the entry the list object is empty, and the loop ends at the
  next round (so the first case below is met by no call that starts from an entry).
  An exception raised by a send leaves the loop at once.
\<close>

function broadcast ::
  "conn \<Rightarrow> string \<Rightarrow> json \<Rightarrow> nat \<Rightarrow> send_event list \<Rightarrow> world \<Rightarrow> exn option \<times> world" where
  "broadcast ws room_id data i sends w =
     (case rooms w room_id of
        None \<Rightarrow> (None, w)
      | Some clients \<Rightarrow>
          if i < length clients then
            (if clients ! i \<noteq> ws then
               (case sends of
                  [] \<Rightarrow>
                    broadcast ws room_id data (Suc i) []
                      (w\<lparr>outbox := outbox w @ [(clients ! i, data)]\<rparr>)
                | (acts, res) # sends' \<Rightarrow>
                    (case others_run room_id acts (rooms w) of
                       (alive, rs) \<Rightarrow>
                         (case res of
                            Some e \<Rightarrow> (Some e, w\<lparr>rooms := rs\<rparr>)
                          | None \<Rightarrow>
                              if alive then
                                broadcast ws room_id data (Suc i) sends'
                                  (w\<lparr>rooms := rs, outbox := outbox w @ [(clients ! i, data)]\<rparr>)
                              else
                                (None, w\<lparr>rooms := rs,
                                         outbox := outbox w @ [(clients ! i, data)]\<rparr>))))
             else broadcast ws room_id data (Suc i) sends w)
          else (None, w))"
  by pat_completeness auto
termination
  by (relation "measures
        [\<lambda>(ws, room_id, data, i, sends, w). length sends,
         \<lambda>(ws, room_id, data, i, sends, w).
            (case rooms w room_id of None \<Rightarrow> 0 | Some clients \<Rightarrow> length clients) - i]")
     auto

declare broadcast.simps [simp del]

subsection \<open>One iteration of the receive loop, after the receive (lines 34 to 48)\<close>

text \<open>
  \<^verbatim>\<open>data.get\<close> exists on a dict only; on any other JSON value the attribute lookup
  raises \<^verbatim>\<open>AttributeError\<close>. An exception of a \<^verbatim>\<open>print\<close> leaves the iteration before
  the loop of the sends; \<^verbatim>\<open>rooms[room_id]\<close> raises \<^verbatim>\<open>KeyError\<close> on a missing key.
\<close>

definition handle_data ::
  "conn \<Rightarrow> string \<Rightarrow> json \<Rightarrow> send_event list \<Rightarrow> world \<Rightarrow> exn option \<times> world" where
  "handle_data ws room_id data sends w =
     (case data of
        JObj flds \<Rightarrow>
          (case log_message room_id flds w of
             (Some e, w1) \<Rightarrow> (Some e, w1)
           | (None, w1) \<Rightarrow>
               (case rooms w1 room_id of
                  None \<Rightarrow> (Some KeyError, w1)
                | Some clients \<Rightarrow> broadcast ws room_id data 0 sends w1))
      | _ \<Rightarrow> (Some AttributeError, w))"

subsection \<open>The receive loop (lines 30 to 48)\<close>

fun receive_loop :: "conn \<Rightarrow> string \<Rightarrow> step list \<Rightarrow> world \<Rightarrow> outcome \<times> world" where
  "receive_loop ws room_id [] w = (Waiting, w)"
| "receive_loop ws room_id (Step acts r sends # steps) w =
     (let w0 = w\<lparr>rooms := snd (others_run room_id acts (rooms w))\<rparr>
      in case r of
           RecvRaises e \<Rightarrow> (Raised e, w0)
         | Recv data \<Rightarrow>
             (case handle_data ws room_id data sends w0 of
                (None, w') \<Rightarrow> receive_loop ws room_id steps w'
              | (Some e, w') \<Rightarrow> (Raised e, w')))"

subsection \<open>The endpoint (lines 19 to 54)\<close>

text \<open>
  The \<^verbatim>\<open>try\<close> statement has one clause, \<^verbatim>\<open>except WebSocketDisconnect\<close>: every
  other exception leaves the coroutine as it is. \<open>serve\<close> is the \<^verbatim>\<open>try\<close> statement,
  \<open>websocket_endpoint\<close> the whole coroutine after \<^verbatim>\<open>ws.accept()\<close>, the handshake
  of the transport.
\<close>

definition serve :: "conn \<Rightarrow> string \<Rightarrow> step list \<Rightarrow> world \<Rightarrow> outcome \<times> world" where
  "serve ws room_id steps w =
     (case receive_loop ws room_id steps w of
        (Raised WebSocketDisconnect, w') \<Rightarrow>
          (case leave ws room_id w' of
             (None, w'') \<Rightarrow> (Returned, w'')
           | (Some e, w'') \<Rightarrow> (Raised e, w''))
      | other \<Rightarrow> other)"

definition websocket_endpoint :: "conn \<Rightarrow> string \<Rightarrow> step list \<Rightarrow> world \<Rightarrow> outcome \<times> world" where
  "websocket_endpoint ws room_id steps w =
     (case join ws room_id w of
        (Some e, w') \<Rightarrow> (Raised e, w')
      | (None, w') \<Rightarrow> serve ws room_id steps w')"

section \<open>Observers and invariants\<close>

text \<open>The payloads that connection \<open>c\<close> has been sent, in order.\<close>

definition delivered_to :: "conn \<Rightarrow> (conn \<times> json) list \<Rightarrow> json list" where
  "delivered_to c box = map snd (filter (\<lambda>p. fst p = c) box)"

text \<open>A send that returns, with no other coroutine writing \<open>rooms\<close> meanwhile.\<close>

definition quiet :: "send_event list \<Rightarrow> bool" where
  "quiet sends = list_all (\<lambda>e. e = ([], None)) sends"

text \<open>Every action in the script is run by the coroutine of a connection other than \<open>ws\<close>.\<close>

fun step_actions :: "step \<Rightarrow> action list" where
  "step_actions (Step acts r sends) = acts @ concat (map fst sends)"

definition others_only :: "conn \<Rightarrow> step list \<Rightarrow> bool" where
  "others_only ws steps = list_all (\<lambda>a. actor a \<noteq> ws) (concat (map step_actions steps))"

text \<open>
  What holds of \<open>rooms\<close> between two blocks of the handlers: no room list is empty,
  no list holds a connection twice, and no connection is in two rooms. The empty
  registry satisfies it, and \<open>join\<close> of a fresh connection and \<open>leave\<close> keep it
  (lemmas \<open>registry_ok_empty\<close>, \<open>registry_ok_join\<close>, \<open>registry_ok_leave\<close>).
\<close>

definition registry_ok :: "registry \<Rightarrow> bool" where
  "registry_ok rs \<longleftrightarrow>
     (\<forall>r ms. rs r = Some ms \<longrightarrow> ms \<noteq> [] \<and> distinct ms) \<and>
     (\<forall>r r' ms ms' c.
        rs r = Some ms \<longrightarrow> rs r' = Some ms' \<longrightarrow> c \<in> set ms \<longrightarrow> c \<in> set ms' \<longrightarrow> r = r')"

text \<open>
  The part of it that concerns one connection: \<open>ws\<close> is held once by the list of
  \<open>room_id\<close> and by no other list, and no list is empty.
\<close>

definition held_once :: "conn \<Rightarrow> string \<Rightarrow> registry \<Rightarrow> bool" where
  "held_once ws room_id rs \<longleftrightarrow>
     (\<exists>ms. rs room_id = Some ms \<and> count_list ms ws = 1) \<and>
     (\<forall>r ms. r \<noteq> room_id \<longrightarrow> rs r = Some ms \<longrightarrow> ws \<notin> set ms) \<and>
     (\<forall>r ms. rs r = Some ms \<longrightarrow> ms \<noteq> [])"

section \<open>Lemmas on the operations\<close>

lemma broadcast_quiet:
  assumes "quiet sends" and "rooms w room_id = Some clients"
  shows "broadcast ws room_id data i sends w =
           (None, w\<lparr>outbox := outbox w @
                      map (\<lambda>c. (c, data)) (filter (\<lambda>c. c \<noteq> ws) (drop i clients))\<rparr>)"
  using assms
proof (induction "length clients - i" arbitrary: i sends w)
  case 0
  then show ?case by (subst broadcast.simps) simp
next
  case (Suc n)
  then have lt: "i < length clients" by simp
  then have dr: "drop i clients = clients ! i # drop (Suc i) clients"
    by (simp add: Cons_nth_drop_Suc)
  have n: "n = length clients - Suc i" using Suc.hyps(2) by simp
  show ?case
  proof (cases "clients ! i = ws")
    case True
    with lt Suc.prems Suc.hyps(1) [OF n Suc.prems] dr show ?thesis
      by (subst broadcast.simps) simp
  next
    case False
    let ?w = "w\<lparr>outbox := outbox w @ [(clients ! i, data)]\<rparr>"
    have r: "rooms ?w room_id = Some clients" using Suc.prems by simp
    show ?thesis
    proof (cases sends)
      case Nil
      with False lt Suc.prems Suc.hyps(1) [OF n Suc.prems(1) r] dr show ?thesis
        by (subst broadcast.simps) simp
    next
      case (Cons e sends')
      with Suc.prems have e: "e = ([], None)" and q: "quiet sends'"
        by (simp_all add: quiet_def)
      from False lt Suc.prems Cons e Suc.hyps(1) [OF n q r] dr show ?thesis
        by (subst broadcast.simps) simp
    qed
  qed
qed

lemma broadcast_fails:
  assumes "quiet pre" and "rooms w room_id = Some clients"
    and "length pre < length (filter (\<lambda>c. c \<noteq> ws) (drop i clients))"
  shows "\<exists>rs. broadcast ws room_id data i (pre @ (acts, Some e) # rest) w =
           (Some e, w\<lparr>rooms := rs, outbox := outbox w @
                      map (\<lambda>c. (c, data)) (take (length pre) (filter (\<lambda>c. c \<noteq> ws) (drop i clients)))\<rparr>)"
  using assms
proof (induction "length clients - i" arbitrary: i pre w)
  case 0
  then show ?case by simp
next
  case (Suc n)
  then have lt: "i < length clients" by simp
  then have dr: "drop i clients = clients ! i # drop (Suc i) clients"
    by (simp add: Cons_nth_drop_Suc)
  have n: "n = length clients - Suc i" using Suc.hyps(2) by simp
  show ?case
  proof (cases "clients ! i = ws")
    case True
    with Suc.prems dr
    have "length pre < length (filter (\<lambda>c. c \<noteq> ws) (drop (Suc i) clients))" by simp
    from Suc.hyps(1) [OF n Suc.prems(1) Suc.prems(2) this] True lt Suc.prems(2) dr
    show ?thesis by (subst broadcast.simps) simp
  next
    case False
    show ?thesis
    proof (cases pre)
      case Nil
      obtain alive rs where o: "others_run room_id acts (rooms w) = (alive, rs)"
        by (cases "others_run room_id acts (rooms w)")
      have "broadcast ws room_id data i ((acts, Some e) # rest) w = (Some e, w\<lparr>rooms := rs\<rparr>)"
        using False lt Suc.prems(2) o by (subst broadcast.simps) simp
      with Nil show ?thesis by auto
    next
      case (Cons p pre')
      with Suc.prems have p: "p = ([], None)" and q: "quiet pre'"
        by (simp_all add: quiet_def)
      let ?w = "w\<lparr>rooms := rooms w, outbox := outbox w @ [(clients ! i, data)]\<rparr>"
      have r: "rooms ?w room_id = Some clients" using Suc.prems by simp
      from Suc.prems Cons False dr
      have l: "length pre' < length (filter (\<lambda>c. c \<noteq> ws) (drop (Suc i) clients))" by simp
      from Suc.hyps(1) [OF n q r l] obtain rs where
        rec: "broadcast ws room_id data (Suc i) (pre' @ (acts, Some e) # rest) ?w =
           (Some e, ?w\<lparr>rooms := rs, outbox := outbox ?w @
              map (\<lambda>c. (c, data)) (take (length pre') (filter (\<lambda>c. c \<noteq> ws) (drop (Suc i) clients)))\<rparr>)"
        by blast
      have "broadcast ws room_id data i (pre @ (acts, Some e) # rest) w =
              broadcast ws room_id data (Suc i) (pre' @ (acts, Some e) # rest) ?w"
        using False lt Suc.prems(2) Cons p by (subst broadcast.simps) simp
      with rec False Cons dr show ?thesis
        by (intro exI [of _ rs]) simp
    qed
  qed
qed

lemma others_run_snd:
  "snd (others_run room_id acts rs) = foldl (\<lambda>r a. act a r) rs acts"
proof (induction acts arbitrary: rs)
  case Nil
  show ?case by simp
next
  case (Cons a acts)
  from Cons.IH [of "act a rs"] show ?case
    by (cases "others_run room_id acts (act a rs)") simp
qed

lemma others_run_append:
  "snd (others_run room_id (xs @ ys) rs) = snd (others_run room_id ys (snd (others_run room_id xs rs)))"
  by (simp add: others_run_snd)

lemma broadcast_shape:
  "\<exists>out rs rcpts used.
     ws \<notin> set rcpts \<and> set used \<subseteq> set (concat (map fst sends)) \<and>
     rs = snd (others_run room_id used R) \<and>
     (\<forall>data w. rooms w = R \<longrightarrow>
        broadcast ws room_id data i sends w =
          (out, w\<lparr>rooms := rs, outbox := outbox w @ map (\<lambda>c. (c, data)) rcpts\<rparr>))"
proof (induction sends arbitrary: R i)
  case Nil
  show ?case
  proof (cases "R room_id")
    case None
    then have "\<forall>data w. rooms w = R \<longrightarrow>
        broadcast ws room_id data i [] w =
          (None, w\<lparr>rooms := snd (others_run room_id [] R), outbox := outbox w @ map (\<lambda>c. (c, data)) []\<rparr>)"
      by (auto simp: broadcast.simps)
    then show ?thesis by (intro exI [of _ None] exI [of _ "[]"] exI [of _ R]) auto
  next
    case (Some clients)
    have "\<forall>data w. rooms w = R \<longrightarrow>
        broadcast ws room_id data i [] w =
          (None, w\<lparr>rooms := R, outbox := outbox w @
             map (\<lambda>c. (c, data)) (filter (\<lambda>c. c \<noteq> ws) (drop i clients))\<rparr>)"
      using Some by (auto simp: broadcast_quiet quiet_def)
    then show ?thesis
      by (intro exI [of _ None] exI [of _ R] exI [of _ "filter (\<lambda>c. c \<noteq> ws) (drop i clients)"]
            exI [of _ "[]"]) auto
  qed
next
  case (Cons ev sends)
  obtain acts res where ev: "ev = (acts, res)" by (cases ev)
  show ?case
  proof (cases "R room_id")
    case None
    then have "\<forall>data w. rooms w = R \<longrightarrow>
        broadcast ws room_id data i (ev # sends) w =
          (None, w\<lparr>rooms := snd (others_run room_id [] R), outbox := outbox w @ map (\<lambda>c. (c, data)) []\<rparr>)"
      by (auto simp: broadcast.simps)
    then show ?thesis by (intro exI [of _ None] exI [of _ "[]"] exI [of _ R]) auto
  next
    case (Some clients)
    show ?thesis
    proof (induction "length clients - i" arbitrary: i)
      case 0
      then have "\<forall>data w. rooms w = R \<longrightarrow>
        broadcast ws room_id data i (ev # sends) w =
          (None, w\<lparr>rooms := snd (others_run room_id [] R), outbox := outbox w @ map (\<lambda>c. (c, data)) []\<rparr>)"
        using Some by (auto simp: broadcast.simps)
      then show ?case by (intro exI [of _ None] exI [of _ "[]"] exI [of _ R]) auto
    next
      case (Suc n)
      then have lt: "i < length clients" by simp
      have n: "n = length clients - Suc i" using Suc.hyps(2) by simp
      show ?case
      proof (cases "clients ! i = ws")
        case True
        from Suc.hyps(1) [OF n] obtain out rs rcpts used where
          a: "ws \<notin> set rcpts" "set used \<subseteq> set (concat (map fst (ev # sends)))"
             "rs = snd (others_run room_id used R)"
          and b: "\<forall>data w. rooms w = R \<longrightarrow>
            broadcast ws room_id data (Suc i) (ev # sends) w =
              (out, w\<lparr>rooms := rs, outbox := outbox w @ map (\<lambda>c. (c, data)) rcpts\<rparr>)"
          by blast
        have "\<forall>data w. rooms w = R \<longrightarrow>
            broadcast ws room_id data i (ev # sends) w =
              (out, w\<lparr>rooms := rs, outbox := outbox w @ map (\<lambda>c. (c, data)) rcpts\<rparr>)"
          using b True lt Some by (auto simp: broadcast.simps [of ws room_id _ i])
        with a show ?thesis by blast
      next
        case False
        obtain alive rs1 where o: "others_run room_id acts R = (alive, rs1)"
          by (cases "others_run room_id acts R")
        show ?thesis
        proof (cases res)
          case (Some e)
          have "\<forall>data w. rooms w = R \<longrightarrow>
            broadcast ws room_id data i (ev # sends) w =
              (Some e, w\<lparr>rooms := snd (others_run room_id acts R),
                   outbox := outbox w @ map (\<lambda>c. (c, data)) []\<rparr>)"
            using False lt \<open>R room_id = Some clients\<close> ev Some o
            by (auto simp: broadcast.simps [of ws room_id _ i])
          then show ?thesis
            using ev by (intro exI [of _ "Some e"] exI [of _ "[]"] exI [of _ acts]
                exI [of _ "snd (others_run room_id acts R)"]) auto
        next
          case None
          show ?thesis
          proof (cases alive)
            case False
            have "\<forall>data w. rooms w = R \<longrightarrow>
              broadcast ws room_id data i (ev # sends) w =
                (None, w\<lparr>rooms := snd (others_run room_id acts R),
                   outbox := outbox w @ map (\<lambda>c. (c, data)) [clients ! i]\<rparr>)"
              using \<open>clients ! i \<noteq> ws\<close> lt \<open>R room_id = Some clients\<close> ev None o False
              by (auto simp: broadcast.simps [of ws room_id _ i])
            then show ?thesis
              using ev \<open>clients ! i \<noteq> ws\<close>
              by (intro exI [of _ None] exI [of _ "[clients ! i]"] exI [of _ acts]
                  exI [of _ "snd (others_run room_id acts R)"]) auto
          next
            case True
            from Cons.IH [of rs1 "Suc i"] obtain out rs rcpts used where
              a: "ws \<notin> set rcpts" "set used \<subseteq> set (concat (map fst sends))"
                 "rs = snd (others_run room_id used rs1)"
              and b: "\<forall>data w. rooms w = rs1 \<longrightarrow>
                broadcast ws room_id data (Suc i) sends w =
                  (out, w\<lparr>rooms := rs, outbox := outbox w @ map (\<lambda>c. (c, data)) rcpts\<rparr>)"
              by blast
            have "\<forall>data w. rooms w = R \<longrightarrow>
              broadcast ws room_id data i (ev # sends) w =
                (out, w\<lparr>rooms := rs, outbox := outbox w @ map (\<lambda>c. (c, data)) (clients ! i # rcpts)\<rparr>)"
              using \<open>clients ! i \<noteq> ws\<close> lt \<open>R room_id = Some clients\<close> ev None o True b
              by (auto simp: broadcast.simps [of ws room_id _ i])
            moreover have "rs = snd (others_run room_id (acts @ used) R)"
              using a(3) o by (simp add: others_run_append)
            moreover have "set (acts @ used) \<subseteq> set (concat (map fst (ev # sends)))"
              using a(2) ev by auto
            moreover have "ws \<notin> set (clients ! i # rcpts)"
              using a(1) \<open>clients ! i \<noteq> ws\<close> by auto
            ultimately show ?thesis by blast
          qed
        qed
      qed
    qed
  qed
qed

lemma registry_ok_empty: "registry_ok Map.empty"
  by (simp add: registry_ok_def)

lemma join_ok:
  "join ws room_id w =
     (None, w\<lparr>rooms := (rooms w)(room_id \<mapsto> (case rooms w room_id of None \<Rightarrow> [] | Some ms \<Rightarrow> ms) @ [ws]),
              console := console w @
                [ClientConnected room_id (Suc (member_count (rooms w) room_id))]\<rparr>)"
  by (simp add: join_def member_count_def split: option.splits)

lemma registry_ok_join:
  assumes ok: "registry_ok (rooms w)" and fresh: "\<forall>r ms. rooms w r = Some ms \<longrightarrow> ws \<notin> set ms"
  shows "registry_ok (rooms (snd (join ws room_id w)))"
proof -
  define old where "old = (case rooms w room_id of None \<Rightarrow> [] | Some ms \<Rightarrow> ms)"
  have rs: "rooms (snd (join ws room_id w)) = (rooms w)(room_id \<mapsto> old @ [ws])"
    by (simp add: join_ok old_def)
  have old_d: "distinct old" and old_f: "ws \<notin> set old"
    using ok fresh by (auto simp: old_def registry_ok_def split: option.splits)
  have old_m: "\<And>c. c \<in> set old \<Longrightarrow> rooms w room_id = Some old"
    by (cases "rooms w room_id") (simp_all add: old_def)
  show ?thesis
    unfolding rs registry_ok_def
  proof (intro conjI allI impI)
    fix r ms assume "((rooms w)(room_id \<mapsto> old @ [ws])) r = Some ms"
    then show "ms \<noteq> []" and "distinct ms"
      using ok old_d old_f by (auto simp: registry_ok_def split: if_splits)
  next
    fix r r' ms ms' c
    assume a: "((rooms w)(room_id \<mapsto> old @ [ws])) r = Some ms"
      and b: "((rooms w)(room_id \<mapsto> old @ [ws])) r' = Some ms'"
      and c: "c \<in> set ms" "c \<in> set ms'"
    show "r = r'"
    proof (cases "r = room_id")
      case True
      show ?thesis
      proof (cases "r' = room_id")
        case True
        with \<open>r = room_id\<close> show ?thesis by simp
      next
        case False
        with b have b': "rooms w r' = Some ms'" by simp
        from a True have "ms = old @ [ws]" by simp
        with c have "c = ws \<or> c \<in> set old" by auto
        then show ?thesis
        proof
          assume "c = ws"
          with fresh b' c show ?thesis by blast
        next
          assume "c \<in> set old"
          then have "rooms w room_id = Some old" by (rule old_m)
          with ok b' c \<open>c \<in> set old\<close> have "room_id = r'"
            unfolding registry_ok_def by blast
          with False show ?thesis by simp
        qed
      qed
    next
      case False
      with a have a': "rooms w r = Some ms" by simp
      show ?thesis
      proof (cases "r' = room_id")
        case True
        from b True have "ms' = old @ [ws]" by simp
        with c have "c = ws \<or> c \<in> set old" by auto
        then show ?thesis
        proof
          assume "c = ws"
          with fresh a' c show ?thesis by blast
        next
          assume "c \<in> set old"
          then have "rooms w room_id = Some old" by (rule old_m)
          with ok a' c \<open>c \<in> set old\<close> have "r = room_id"
            unfolding registry_ok_def by blast
          with False show ?thesis by simp
        qed
      next
        case False
        with b have "rooms w r' = Some ms'" by simp
        with ok a' c show ?thesis unfolding registry_ok_def by blast
      qed
    qed
  qed
qed

lemma leave_member:
  assumes "rooms w room_id = Some ms" and "ws \<in> set ms"
  shows "leave ws room_id w =
           (None, w\<lparr>rooms := (if remove1 ws ms = [] then (rooms w)(room_id := None)
                              else (rooms w)(room_id \<mapsto> remove1 ws ms)),
                    console := console w @ [ClientDisconnected room_id]\<rparr>)"
  using assms by (simp add: leave_def Let_def)

lemma registry_ok_leave:
  assumes ok: "registry_ok (rooms w)"
  shows "registry_ok (rooms (snd (leave ws room_id w)))"
proof (cases "rooms w room_id")
  case None
  with ok show ?thesis by (simp add: leave_def)
next
  case (Some ms)
  show ?thesis
  proof (cases "ws \<in> set ms")
    case False
    with Some ok show ?thesis by (simp add: leave_def)
  next
    case True
    have sub: "\<And>c. c \<in> set (remove1 ws ms) \<Longrightarrow> c \<in> set ms"
      using set_remove1_subset [of ws ms] by blast
    have dist: "distinct (remove1 ws ms)" using ok Some by (simp add: registry_ok_def)
    have mono: "\<And>r ms'. rooms (snd (leave ws room_id w)) r = Some ms' \<Longrightarrow>
                  ms' \<noteq> [] \<and> distinct ms' \<and> (\<exists>ms0. rooms w r = Some ms0 \<and> set ms' \<subseteq> set ms0)"
      using ok Some sub dist
      by (auto simp: leave_member [OF Some True] registry_ok_def split: if_splits)
    show ?thesis
      unfolding registry_ok_def
    proof (intro conjI allI impI)
      fix r ms' assume "rooms (snd (leave ws room_id w)) r = Some ms'"
      then show "ms' \<noteq> []" and "distinct ms'" using mono by blast+
    next
      fix r r' m1 m2 c
      assume "rooms (snd (leave ws room_id w)) r = Some m1"
        and "rooms (snd (leave ws room_id w)) r' = Some m2"
        and "c \<in> set m1" and "c \<in> set m2"
      then obtain n1 n2 where "rooms w r = Some n1" "rooms w r' = Some n2" "c \<in> set n1" "c \<in> set n2"
        using mono by blast
      with ok show "r = r'" unfolding registry_ok_def by blast
    qed
  qed
qed

lemma count_list_remove1_other:
  "c \<noteq> x \<Longrightarrow> count_list (remove1 c ms) x = count_list ms x"
  by (induction ms) auto

lemma count_list_distinct:
  "distinct ms \<Longrightarrow> x \<in> set ms \<Longrightarrow> count_list ms x = 1"
  by (induction ms) (auto simp: count_list_0_iff)

lemma count_list_one_remove1:
  "count_list ms x = 1 \<Longrightarrow> x \<notin> set (remove1 x ms)"
  by (induction ms) (auto simp: count_list_0_iff split: if_splits)

lemma count_list_one_member:
  "count_list ms x = 1 \<Longrightarrow> x \<in> set ms"
  using count_list_0_iff [of ms x] by auto

lemma act_join:
  "act (OtherJoin c r) rs = rs(r \<mapsto> (case rs r of None \<Rightarrow> [] | Some ms \<Rightarrow> ms) @ [c])"
  by (simp add: join_ok)

lemma act_leave:
  "act (OtherLeave c r) rs =
     (case rs r of
        None \<Rightarrow> rs
      | Some ms \<Rightarrow>
          if c \<notin> set ms then rs
          else if remove1 c ms = [] then rs(r := None)
          else rs(r \<mapsto> remove1 c ms))"
  by (simp add: leave_def Let_def split: option.splits)

declare act.simps [simp del]

lemma held_once_registry_ok:
  assumes "registry_ok rs" and "rs room_id = Some ms" and "ws \<in> set ms"
  shows "held_once ws room_id rs"
  unfolding held_once_def
proof (intro conjI allI impI)
  have "distinct ms" using assms by (simp add: registry_ok_def)
  with assms show "\<exists>ms. rs room_id = Some ms \<and> count_list ms ws = 1"
    by (simp add: count_list_distinct)
next
  fix r ms' assume "r \<noteq> room_id" and "rs r = Some ms'"
  with assms show "ws \<notin> set ms'" unfolding registry_ok_def by blast
next
  fix r ms' assume "rs r = Some ms'"
  with assms show "ms' \<noteq> []" by (simp add: registry_ok_def)
qed

lemma held_once_act:
  assumes h: "held_once ws room_id rs" and o: "actor a \<noteq> ws"
  shows "held_once ws room_id (act a rs)"
proof (cases a)
  case (OtherJoin c r)
  with o have c: "c \<noteq> ws" by simp
  from h obtain ms where ms: "rs room_id = Some ms" "count_list ms ws = 1"
    and others: "\<And>r' ms'. r' \<noteq> room_id \<Longrightarrow> rs r' = Some ms' \<Longrightarrow> ws \<notin> set ms'"
    and ne: "\<And>r' ms'. rs r' = Some ms' \<Longrightarrow> ms' \<noteq> []"
    unfolding held_once_def by blast
  show ?thesis
    unfolding OtherJoin act_join held_once_def
  proof (intro conjI allI impI)
    show "\<exists>ms. (rs(r \<mapsto> (case rs r of None \<Rightarrow> [] | Some ms \<Rightarrow> ms) @ [c])) room_id = Some ms \<and>
               count_list ms ws = 1"
      using ms c by (cases "r = room_id") simp_all
  next
    fix r' ms'
    assume "r' \<noteq> room_id"
      and "(rs(r \<mapsto> (case rs r of None \<Rightarrow> [] | Some ms \<Rightarrow> ms) @ [c])) r' = Some ms'"
    then show "ws \<notin> set ms'"
      using others [of r'] c by (cases "r' = r"; cases "rs r") auto
  next
    fix r' ms'
    assume "(rs(r \<mapsto> (case rs r of None \<Rightarrow> [] | Some ms \<Rightarrow> ms) @ [c])) r' = Some ms'"
    then show "ms' \<noteq> []"
      using ne [of r'] by (cases "r' = r") auto
  qed
next
  case (OtherLeave c r)
  with o have c: "c \<noteq> ws" by simp
  from h obtain ms where ms: "rs room_id = Some ms" "count_list ms ws = 1"
    and others: "\<And>r' ms'. r' \<noteq> room_id \<Longrightarrow> rs r' = Some ms' \<Longrightarrow> ws \<notin> set ms'"
    and ne: "\<And>r' ms'. rs r' = Some ms' \<Longrightarrow> ms' \<noteq> []"
    unfolding held_once_def by blast
  show ?thesis
  proof (cases "rs r")
    case None
    with h show ?thesis by (simp add: OtherLeave act_leave)
  next
    case (Some xs)
    show ?thesis
    proof (cases "c \<in> set xs")
      case False
      with Some h show ?thesis by (simp add: OtherLeave act_leave)
    next
      case True
      have sub: "\<And>x. x \<in> set (remove1 c xs) \<Longrightarrow> x \<in> set xs"
        using set_remove1_subset [of c xs] by blast
      show ?thesis
      proof (cases "r = room_id")
        case True
        with Some ms have xs: "xs = ms" by simp
        have cnt: "count_list (remove1 c ms) ws = 1"
          using ms c by (simp add: count_list_remove1_other)
        have "remove1 c ms \<noteq> []"
        proof
          assume e: "remove1 c ms = []"
          have "count_list (remove1 c ms) ws = 0" unfolding e by simp
          with cnt show False by simp
        qed
        with Some \<open>c \<in> set xs\<close> xs True
        have eq: "act a rs = rs(room_id \<mapsto> remove1 c ms)"
          by (simp add: OtherLeave act_leave)
        show ?thesis
          unfolding eq held_once_def
          using cnt others ne \<open>remove1 c ms \<noteq> []\<close> by auto
      next
        case False
        have eq: "act a rs = (if remove1 c xs = [] then rs(r := None) else rs(r \<mapsto> remove1 c xs))"
          using Some \<open>c \<in> set xs\<close> by (simp add: OtherLeave act_leave)
        have "ws \<notin> set xs" using others [OF False Some] .
        then have "ws \<notin> set (remove1 c xs)" using sub by blast
        then show ?thesis
          unfolding eq held_once_def
          using ms others ne False by auto
      qed
    qed
  qed
qed

lemma held_once_others_run:
  assumes "held_once ws room_id rs" and "list_all (\<lambda>a. actor a \<noteq> ws) acts"
  shows "held_once ws room_id (snd (others_run r acts rs))"
  using assms unfolding others_run_snd
  by (induction acts arbitrary: rs) (simp_all add: held_once_act)

lemma leave_held_once:
  assumes h: "held_once ws room_id (rooms w)"
  shows "\<exists>w'. leave ws room_id w = (None, w') \<and>
              console w' = console w @ [ClientDisconnected room_id] \<and>
              (\<forall>r ms. rooms w' r = Some ms \<longrightarrow> ws \<notin> set ms \<and> ms \<noteq> []) \<and>
              (rooms w room_id = Some [ws] \<longrightarrow> rooms w' room_id = None) \<and>
              (\<forall>r. r \<noteq> room_id \<longrightarrow> rooms w' r = rooms w r)"
proof -
  from h obtain ms where ms: "rooms w room_id = Some ms" "count_list ms ws = 1"
    and others: "\<And>r' ms'. r' \<noteq> room_id \<Longrightarrow> rooms w r' = Some ms' \<Longrightarrow> ws \<notin> set ms'"
    and ne: "\<And>r' ms'. rooms w r' = Some ms' \<Longrightarrow> ms' \<noteq> []"
    unfolding held_once_def by blast
  have m: "ws \<in> set ms" using ms(2) by (rule count_list_one_member)
  have gone: "ws \<notin> set (remove1 ws ms)" using ms(2) by (rule count_list_one_remove1)
  let ?w' = "w\<lparr>rooms := (if remove1 ws ms = [] then (rooms w)(room_id := None)
                              else (rooms w)(room_id \<mapsto> remove1 ws ms)),
                    console := console w @ [ClientDisconnected room_id]\<rparr>"
  have l: "leave ws room_id w = (None, ?w')" by (rule leave_member [OF ms(1) m])
  have "\<forall>r ms'. rooms ?w' r = Some ms' \<longrightarrow> ws \<notin> set ms' \<and> ms' \<noteq> []"
    using gone others ne by (auto split: if_splits)
  moreover have "rooms w room_id = Some [ws] \<longrightarrow> rooms ?w' room_id = None"
    using ms(1) by auto
  moreover have "\<forall>r. r \<noteq> room_id \<longrightarrow> rooms ?w' r = rooms w r" by simp
  moreover have "console ?w' = console w @ [ClientDisconnected room_id]" by simp
  ultimately show ?thesis using l by blast
qed

lemma log_message_rooms:
  "rooms (snd (log_message room_id flds w)) = rooms w \<and>
   outbox (snd (log_message room_id flds w)) = outbox w"
  by (simp add: log_message_def print_line_def Let_def split: category.splits)

lemma broadcast_rooms:
  "\<exists>used. set used \<subseteq> set (concat (map fst sends)) \<and>
          rooms (snd (broadcast ws room_id data i sends w)) = snd (others_run room_id used (rooms w))"
proof -
  from broadcast_shape [of ws sends room_id "rooms w" i]
  obtain out rs rcpts used where "set used \<subseteq> set (concat (map fst sends))"
    and "rs = snd (others_run room_id used (rooms w))"
    and "broadcast ws room_id data i sends w =
          (out, w\<lparr>rooms := rs, outbox := outbox w @ map (\<lambda>c. (c, data)) rcpts\<rparr>)"
    by blast
  then show ?thesis by auto
qed

lemma handle_data_rooms:
  "\<exists>used. set used \<subseteq> set (concat (map fst sends)) \<and>
          rooms (snd (handle_data ws room_id data sends w)) = snd (others_run room_id used (rooms w))"
proof -
  show ?thesis
  proof (cases "\<exists>flds. data = JObj flds")
    case False
    then have "handle_data ws room_id data sends w = (Some AttributeError, w)"
      by (cases data) (simp_all add: handle_data_def)
    then have "rooms (snd (handle_data ws room_id data sends w)) = rooms w" by simp
    then show ?thesis by (intro exI [of _ "[]"]) simp
  next
    case True
    then obtain flds where JObj: "data = JObj flds" by blast
    obtain res w1 where lg: "log_message room_id flds w = (res, w1)"
      by (cases "log_message room_id flds w")
    with log_message_rooms [of room_id flds w] have r1: "rooms w1 = rooms w" by simp
    show ?thesis
    proof (cases res)
      case (Some e)
      with JObj lg r1 have "rooms (snd (handle_data ws room_id data sends w)) = rooms w"
        by (simp add: handle_data_def)
      then show ?thesis by (intro exI [of _ "[]"]) simp
    next
      case None
      show ?thesis
      proof (cases "rooms w1 room_id")
        case None
        with JObj lg \<open>res = None\<close> r1
        have "rooms (snd (handle_data ws room_id data sends w)) = rooms w"
          by (simp add: handle_data_def)
        then show ?thesis by (intro exI [of _ "[]"]) simp
      next
        case (Some clients)
        with JObj lg \<open>res = None\<close>
        have "handle_data ws room_id data sends w = broadcast ws room_id data 0 sends w1"
          by (simp add: handle_data_def)
        with r1 broadcast_rooms [of sends ws room_id data 0 w1]
        show ?thesis by simp
      qed
    qed
  qed
qed

lemma handle_data_held_once:
  assumes "held_once ws room_id (rooms w)" and "list_all (\<lambda>a. actor a \<noteq> ws) (concat (map fst sends))"
  shows "held_once ws room_id (rooms (snd (handle_data ws room_id data sends w)))"
proof -
  from handle_data_rooms [of sends ws room_id data w] obtain used where
    u: "set used \<subseteq> set (concat (map fst sends))"
    and r: "rooms (snd (handle_data ws room_id data sends w)) = snd (others_run room_id used (rooms w))"
    by blast
  from u assms(2) have "list_all (\<lambda>a. actor a \<noteq> ws) used"
    unfolding list_all_iff by blast
  with assms(1) show ?thesis unfolding r by (rule held_once_others_run)
qed

lemma receive_loop_held_once:
  assumes "held_once ws room_id (rooms w)" and "others_only ws steps"
  shows "held_once ws room_id (rooms (snd (receive_loop ws room_id steps w)))"
  using assms
proof (induction steps arbitrary: w)
  case Nil
  then show ?case by simp
next
  case (Cons s steps)
  obtain acts r sends where s: "s = Step acts r sends" by (cases s)
  from Cons.prems(2) s have a1: "list_all (\<lambda>a. actor a \<noteq> ws) acts"
    and a2: "list_all (\<lambda>a. actor a \<noteq> ws) (concat (map fst sends))"
    and a3: "others_only ws steps"
    by (simp_all add: others_only_def)
  let ?w0 = "w\<lparr>rooms := snd (others_run room_id acts (rooms w))\<rparr>"
  have h0: "held_once ws room_id (rooms ?w0)"
    using held_once_others_run [OF Cons.prems(1) a1] by simp
  show ?case
  proof (cases r)
    case (RecvRaises e)
    with s h0 show ?thesis by (simp add: Let_def)
  next
    case (Recv data)
    obtain res w' where hd: "handle_data ws room_id data sends ?w0 = (res, w')"
      by (cases "handle_data ws room_id data sends ?w0")
    have h1: "held_once ws room_id (rooms w')"
      using handle_data_held_once [OF h0 a2, of data] hd by simp
    show ?thesis
    proof (cases res)
      case None
      with s Recv hd Cons.IH [OF h1 a3] show ?thesis by (simp add: Let_def)
    next
      case (Some e)
      with s Recv hd h1 show ?thesis by (simp add: Let_def)
    qed
  qed
qed

lemma delivered_to_append: "delivered_to c (xs @ ys) = delivered_to c xs @ delivered_to c ys"
  by (simp add: delivered_to_def)

lemma delivered_to_fanout:
  "distinct cs \<Longrightarrow>
   delivered_to c (map (\<lambda>d. (d, data)) (filter (\<lambda>d. d \<noteq> ws) cs)) =
     (if c \<in> set cs \<and> c \<noteq> ws then [data] else [])"
  by (induction cs) (auto simp: delivered_to_def)

lemma delivered_to_not_in:
  "c \<notin> set cs \<Longrightarrow> delivered_to c (map (\<lambda>d. (d, data)) cs) = []"
  by (induction cs) (auto simp: delivered_to_def)

lemma broadcast_no_echo:
  "delivered_to ws (outbox (snd (broadcast ws room_id data i sends w))) = delivered_to ws (outbox w)"
proof -
  from broadcast_shape [of ws sends room_id "rooms w" i]
  obtain out rs rcpts where "ws \<notin> set rcpts"
    and "broadcast ws room_id data i sends w =
          (out, w\<lparr>rooms := rs, outbox := outbox w @ map (\<lambda>c. (c, data)) rcpts\<rparr>)"
    by blast
  then show ?thesis by (simp add: delivered_to_append delivered_to_not_in)
qed

lemma handle_data_no_echo:
  "delivered_to ws (outbox (snd (handle_data ws room_id data sends w))) = delivered_to ws (outbox w)"
proof (cases "\<exists>flds. data = JObj flds")
  case False
  then have "handle_data ws room_id data sends w = (Some AttributeError, w)"
    by (cases data) (simp_all add: handle_data_def)
  then show ?thesis by simp
next
  case True
  then obtain flds where d: "data = JObj flds" by blast
  obtain res w1 where lg: "log_message room_id flds w = (res, w1)"
    by (cases "log_message room_id flds w")
  with log_message_rooms [of room_id flds w] have o: "outbox w1 = outbox w" by simp
  show ?thesis
    using d lg o broadcast_no_echo [of ws room_id data 0 sends w1]
    by (cases res; cases "rooms w1 room_id") (simp_all add: handle_data_def)
qed

lemma handle_data_quiet:
  assumes r: "rooms w room_id = Some members" and q: "quiet sends"
    and p: "log_message room_id flds w = (None, w1)"
  shows "handle_data ws room_id (JObj flds) sends w =
           (None, w1\<lparr>outbox := outbox w @
                      map (\<lambda>c. (c, JObj flds)) (filter (\<lambda>c. c \<noteq> ws) members)\<rparr>)"
proof -
  from log_message_rooms [of room_id flds w] p
  have r1: "rooms w1 = rooms w" and o1: "outbox w1 = outbox w" by simp_all
  with r have r1': "rooms w1 room_id = Some members" by simp
  show ?thesis
    using p r1' o1 broadcast_quiet [OF q r1', of ws "JObj flds" 0]
    by (simp add: handle_data_def)
qed

section \<open>The claims\<close>

text \<open>
  C1, as stated, fails, in three ways. In room \<open>r1\<close> with members 1, 2, 3, 4,
  connection 2 leaves while the send to it is suspended: the list shifts under the
  iterator, and 3, a member before and after, is sent nothing although every send
  returns. With members 1, 2, 3, the send to 2 raises and 3 is sent nothing. With
  members 1, 2, a message of type \<open>image\<close> whose sender holds a lone surrogate makes
  \<^verbatim>\<open>print\<close> raise, and 2 is sent nothing.
\<close>

theorem delivery_misses_a_member_counterexample:
  "fst (handle_data 1 ''r1'' (JObj [(str ''type'', JStr (str ''chat''))])
          [([OtherLeave 2 ''r1''], None)]
          \<lparr>rooms = [''r1'' \<mapsto> [1, 2, 3, 4]], outbox = [], console = []\<rparr>) = None \<and>
   rooms (snd (handle_data 1 ''r1'' (JObj [(str ''type'', JStr (str ''chat''))])
          [([OtherLeave 2 ''r1''], None)]
          \<lparr>rooms = [''r1'' \<mapsto> [1, 2, 3, 4]], outbox = [], console = []\<rparr>)) ''r1'' =
     Some [1, 3, 4] \<and>
   delivered_to 3 (outbox (snd (handle_data 1 ''r1'' (JObj [(str ''type'', JStr (str ''chat''))])
          [([OtherLeave 2 ''r1''], None)]
          \<lparr>rooms = [''r1'' \<mapsto> [1, 2, 3, 4]], outbox = [], console = []\<rparr>))) = [] \<and>
   delivered_to 3 (outbox (snd (handle_data 1 ''r1'' (JObj [(str ''type'', JStr (str ''file''))])
          [([], Some WebSocketDisconnect)]
          \<lparr>rooms = [''r1'' \<mapsto> [1, 2, 3]], outbox = [], console = []\<rparr>))) = [] \<and>
   delivered_to 2 (outbox (snd (handle_data 1 ''r1''
          (JObj [(str ''type'', JStr (str ''image'')), (str ''sender'', JStr [0xDFFF])]) []
          \<lparr>rooms = [''r1'' \<mapsto> [1, 2]], outbox = [], console = []\<rparr>))) = []"
  by (simp add: handle_data_def log_message_def dict_get_def classify_def str_def Let_def
      print_line_def encodable_def broadcast.simps act_leave delivered_to_def)

text \<open>
  C1, amended. Broadcast never hands the message back to the sender, whatever the
  payload, the sends and the other coroutines do. In a room that holds the sender and
  no connection twice, for a message that is a dict and whose log line is printed
  without error, when every send returns and no other coroutine writes \<open>rooms\<close>
  while a send is suspended: each member other than the sender is sent the message
  exactly once, unmodified, every other connection, the sender included, is sent
  nothing, and the registry is unchanged.
\<close>

theorem broadcast_reaches_every_other_member:
  "delivered_to ws (outbox (snd (handle_data ws room_id data sends w))) = delivered_to ws (outbox w) \<and>
   (rooms w room_id = Some members \<longrightarrow> ws \<in> set members \<longrightarrow> distinct members \<longrightarrow>
    quiet sends \<longrightarrow> fst (log_message room_id flds w) = None \<longrightarrow>
    (\<exists>w'. handle_data ws room_id (JObj flds) sends w = (None, w') \<and>
          rooms w' = rooms w \<and>
          (\<forall>c. delivered_to c (outbox w') =
                 delivered_to c (outbox w) @
                   (if c \<in> set members \<and> c \<noteq> ws then [JObj flds] else []))))"
proof (intro conjI impI)
  show "delivered_to ws (outbox (snd (handle_data ws room_id data sends w))) = delivered_to ws (outbox w)"
    by (rule handle_data_no_echo)
next
  assume r: "rooms w room_id = Some members" and d: "distinct members"
    and q: "quiet sends" and p: "fst (log_message room_id flds w) = None"
  obtain w1 where lg: "log_message room_id flds w = (None, w1)"
    using p by (cases "log_message room_id flds w") simp
  from log_message_rooms [of room_id flds w] lg have r1: "rooms w1 = rooms w" by simp
  show "\<exists>w'. handle_data ws room_id (JObj flds) sends w = (None, w') \<and>
          rooms w' = rooms w \<and>
          (\<forall>c. delivered_to c (outbox w') =
                 delivered_to c (outbox w) @
                   (if c \<in> set members \<and> c \<noteq> ws then [JObj flds] else []))"
    unfolding handle_data_quiet [OF r q lg]
    using d r1 by (simp add: delivered_to_append delivered_to_fanout)
qed

theorem broadcast_reaches_every_other_member_witness:
  "\<exists>w'. handle_data 1 ''r1''
           (JObj [(str ''type'', JStr (str ''chat'')), (str ''sender'', JStr (str ''X'')),
                  (str ''text'', JStr (str ''hi''))])
           [([], None)]
           \<lparr>rooms = [''r1'' \<mapsto> [1, 2, 3]], outbox = [], console = []\<rparr> = (None, w') \<and>
         delivered_to 1 (outbox w') = [] \<and>
         delivered_to 2 (outbox w') =
           [JObj [(str ''type'', JStr (str ''chat'')), (str ''sender'', JStr (str ''X'')),
                  (str ''text'', JStr (str ''hi''))]] \<and>
         delivered_to 3 (outbox w') =
           [JObj [(str ''type'', JStr (str ''chat'')), (str ''sender'', JStr (str ''X'')),
                  (str ''text'', JStr (str ''hi''))]]"
proof -
  let ?f = "[(str ''type'', JStr (str ''chat'')), (str ''sender'', JStr (str ''X'')),
             (str ''text'', JStr (str ''hi''))]"
  let ?w = "\<lparr>rooms = [''r1'' \<mapsto> [1, 2, 3]], outbox = [], console = []\<rparr>"
  have h: "rooms ?w ''r1'' = Some [1, 2, 3]" "(1::nat) \<in> set [1, 2, 3]" "distinct [1::nat, 2, 3]"
    "quiet [([], None)]"
    by (simp_all add: quiet_def)
  have p: "fst (log_message ''r1'' ?f ?w) = None"
    by (simp add: log_message_def dict_get_def classify_def str_def Let_def print_line_def
        encodable_def)
  from broadcast_reaches_every_other_member
    [where ws = 1 and room_id = "''r1''" and members = "[1, 2, 3]" and sends = "[([], None)]"
       and w = ?w and data = "JObj ?f" and flds = ?f]
    h p
  obtain w' where a: "handle_data 1 ''r1'' (JObj ?f) [([], None)] ?w = (None, w')"
    and b: "\<And>c. delivered_to c (outbox w') =
              delivered_to c (outbox ?w) @ (if c \<in> set [1, 2, 3] \<and> c \<noteq> 1 then [JObj ?f] else [])"
    by blast
  have "delivered_to 1 (outbox w') = []" "delivered_to 2 (outbox w') = [JObj ?f]"
    "delivered_to 3 (outbox w') = [JObj ?f]"
    unfolding b by (simp_all add: delivered_to_def)
  with a show ?thesis by blast
qed

text \<open>
  C2, as stated, fails. In room \<open>r1\<close> with members 1, 2, 3, connection 1 sends a
  message and the send to 2 raises: the exception leaves the \<^verbatim>\<open>for\<close> loop and the
  receive loop, so 3 is sent nothing and the second inbound message is never read.
\<close>

theorem failed_send_blocks_later_recipients_counterexample:
  "fst (receive_loop 1 ''r1''
         [Step [] (Recv (JObj [(str ''type'', JStr (str ''chat''))])) [([], Some OtherError)],
          Step [] (Recv (JObj [(str ''type'', JStr (str ''chat''))])) []]
         \<lparr>rooms = [''r1'' \<mapsto> [1, 2, 3]], outbox = [], console = []\<rparr>) = Raised OtherError \<and>
   delivered_to 3 (outbox (snd (receive_loop 1 ''r1''
         [Step [] (Recv (JObj [(str ''type'', JStr (str ''chat''))])) [([], Some OtherError)],
          Step [] (Recv (JObj [(str ''type'', JStr (str ''chat''))])) []]
         \<lparr>rooms = [''r1'' \<mapsto> [1, 2, 3]], outbox = [], console = []\<rparr>))) = []"
  by (simp add: handle_data_def log_message_def dict_get_def classify_def str_def Let_def
      print_line_def encodable_def broadcast.simps delivered_to_def)

text \<open>
  C2, amended. When the log line of the message is printed and the first sends of the
  broadcast return, with nothing written to \<open>rooms\<close> meanwhile, a send that raises
  ends the broadcast there: exactly the recipients before it have been sent the
  message, none of the remaining ones is, and the exception leaves the sender's
  receive loop, whatever inbound messages follow.
\<close>

theorem failed_send_ends_broadcast:
  assumes r: "rooms w room_id = Some clients" and q: "quiet pre"
    and l: "length pre < length (filter (\<lambda>c. c \<noteq> ws) clients)"
    and p: "fst (log_message room_id flds w) = None"
  shows "\<exists>w'. handle_data ws room_id (JObj flds) (pre @ (acts, Some e) # rest) w = (Some e, w') \<and>
              receive_loop ws room_id
                (Step [] (Recv (JObj flds)) (pre @ (acts, Some e) # rest) # steps) w = (Raised e, w') \<and>
              outbox w' = outbox w @
                map (\<lambda>c. (c, JObj flds)) (take (length pre) (filter (\<lambda>c. c \<noteq> ws) clients))"
proof -
  obtain w1 where lg: "log_message room_id flds w = (None, w1)"
    using p by (cases "log_message room_id flds w") simp
  from log_message_rooms [of room_id flds w] lg
  have r1: "rooms w1 = rooms w" and o1: "outbox w1 = outbox w" by simp_all
  with r have r1': "rooms w1 room_id = Some clients" by simp
  from l have l0: "length pre < length (filter (\<lambda>c. c \<noteq> ws) (drop 0 clients))" by simp
  from broadcast_fails [OF q r1' l0, of "JObj flds" acts e rest] obtain rs where
    b: "broadcast ws room_id (JObj flds) 0 (pre @ (acts, Some e) # rest) w1 =
          (Some e, w1\<lparr>rooms := rs, outbox := outbox w1 @
             map (\<lambda>c. (c, JObj flds)) (take (length pre) (filter (\<lambda>c. c \<noteq> ws) (drop 0 clients)))\<rparr>)"
    by blast
  have h: "handle_data ws room_id (JObj flds) (pre @ (acts, Some e) # rest) w =
          (Some e, w1\<lparr>rooms := rs, outbox := outbox w @
             map (\<lambda>c. (c, JObj flds)) (take (length pre) (filter (\<lambda>c. c \<noteq> ws) clients))\<rparr>)"
    using lg r1' b o1 by (simp add: handle_data_def)
  then show ?thesis by simp
qed

theorem failed_send_ends_broadcast_witness:
  "\<exists>w'. receive_loop 1 ''r1''
           [Step [] (Recv (JObj [(str ''type'', JStr (str ''offer''))]))
              [([], None), ([], Some WebSocketDisconnect)],
            Step [] (Recv (JObj [(str ''type'', JStr (str ''answer''))])) []]
           \<lparr>rooms = [''r1'' \<mapsto> [1, 2, 3, 4]], outbox = [], console = []\<rparr> =
             (Raised WebSocketDisconnect, w') \<and>
         outbox w' = [(2, JObj [(str ''type'', JStr (str ''offer''))])]"
proof -
  let ?f = "[(str ''type'', JStr (str ''offer''))]"
  let ?w = "\<lparr>rooms = [''r1'' \<mapsto> [1, 2, 3, 4]], outbox = [], console = []\<rparr>"
  have r: "rooms ?w ''r1'' = Some [1, 2, 3, 4]" and q: "quiet [([], None)]"
    and l: "length [([], None) :: send_event] < length (filter (\<lambda>c. c \<noteq> 1) [1::nat, 2, 3, 4])"
    by (simp_all add: quiet_def)
  have p: "fst (log_message ''r1'' ?f ?w) = None"
    by (simp add: log_message_def dict_get_def classify_def str_def Let_def)
  from failed_send_ends_broadcast [OF r q l p, of "[]" WebSocketDisconnect "[]"
      "[Step [] (Recv (JObj [(str ''type'', JStr (str ''answer''))])) []]"]
  obtain w' where
    a: "receive_loop 1 ''r1''
          (Step [] (Recv (JObj ?f)) ([([], None)] @ ([], Some WebSocketDisconnect) # []) #
           [Step [] (Recv (JObj [(str ''type'', JStr (str ''answer''))])) []]) ?w =
        (Raised WebSocketDisconnect, w')"
    and b: "outbox w' = outbox ?w @
          map (\<lambda>c. (c, JObj ?f))
            (take (length [([], None) :: send_event]) (filter (\<lambda>c. c \<noteq> 1) [1, 2, 3, 4]))"
    by blast
  from b have "outbox w' = [(2, JObj ?f)]" by simp
  with a show ?thesis by auto
qed

text \<open>
  C3, as stated, fails. Leave on connection 1 raises \<^verbatim>\<open>KeyError\<close> when room
  \<open>r1\<close> has no entry and \<^verbatim>\<open>ValueError\<close> when its list is \<open>[2]\<close>.
\<close>

theorem leave_unregistered_raises_counterexample:
  "fst (leave 1 ''r1'' \<lparr>rooms = Map.empty, outbox = [], console = []\<rparr>) = Some KeyError \<and>
   fst (leave 1 ''r1'' \<lparr>rooms = [''r1'' \<mapsto> [2]], outbox = [], console = []\<rparr>) = Some ValueError"
  by (simp add: leave_def)

text \<open>
  C3, amended. For every registry state and every connection registered in no room,
  Leave leaves the registry (and everything else) unchanged, and raises:
  \<^verbatim>\<open>KeyError\<close> when the room has no entry, \<^verbatim>\<open>ValueError\<close> when it has one.
\<close>

theorem leave_unregistered_raises:
  assumes "\<forall>r ms. rooms w r = Some ms \<longrightarrow> ws \<notin> set ms"
  shows "leave ws room_id w =
           (Some (if rooms w room_id = None then KeyError else ValueError), w)"
  using assms by (auto simp: leave_def split: option.splits)

theorem leave_unregistered_raises_witness:
  "leave 1 ''r1'' \<lparr>rooms = [''r1'' \<mapsto> [2], ''r2'' \<mapsto> [3]], outbox = [], console = []\<rparr> =
     (Some ValueError, \<lparr>rooms = [''r1'' \<mapsto> [2], ''r2'' \<mapsto> [3]], outbox = [], console = []\<rparr>) \<and>
   leave 1 ''r3'' \<lparr>rooms = [''r1'' \<mapsto> [2], ''r2'' \<mapsto> [3]], outbox = [], console = []\<rparr> =
     (Some KeyError, \<lparr>rooms = [''r1'' \<mapsto> [2], ''r2'' \<mapsto> [3]], outbox = [], console = []\<rparr>)"
proof -
  let ?w = "\<lparr>rooms = [''r1'' \<mapsto> [2::nat], ''r2'' \<mapsto> [3]], outbox = [], console = []\<rparr>"
  have h: "\<forall>r ms. rooms ?w r = Some ms \<longrightarrow> (1::nat) \<notin> set ms"
    by (auto split: if_splits)
  show ?thesis
    using leave_unregistered_raises [OF h, of "''r1''"] leave_unregistered_raises [OF h, of "''r3''"]
    by simp
qed

text \<open>
  C4, as stated, fails. Connection 1 joins the empty registry and its first read raises
  an exception other than \<^verbatim>\<open>WebSocketDisconnect\<close>: the coroutine ends with that
  exception, Leave is not called (no disconnect line is printed) and 1 is still a
  member of \<open>r1\<close>.
\<close>

theorem read_error_skips_leave_counterexample:
  "websocket_endpoint 1 ''r1'' [Step [] (RecvRaises OtherError) []]
     \<lparr>rooms = Map.empty, outbox = [], console = []\<rparr> =
   (Raised OtherError,
    \<lparr>rooms = [''r1'' \<mapsto> [1]], outbox = [], console = [ClientConnected ''r1'' 1]\<rparr>)"
  by (simp add: websocket_endpoint_def join_def serve_def)

text \<open>
  C4, amended. For a connection registered in its room, in a registry that satisfies
  the invariant, with the other coroutines joining and leaving for other connections
  only: when the receive loop is left by \<^verbatim>\<open>WebSocketDisconnect\<close>, raised by the read
  or by a send during broadcast, the endpoint returns after exactly one Leave, applied
  to the state at the raise, which prints one disconnect line; afterwards no room of
  the registry holds the connection.
\<close>

theorem disconnect_triggers_one_leave:
  assumes ok: "registry_ok (rooms w)" and r: "rooms w room_id = Some ms" and m: "ws \<in> set ms"
    and o: "others_only ws steps"
    and loop: "receive_loop ws room_id steps w = (Raised WebSocketDisconnect, w1)"
  shows "\<exists>w2. serve ws room_id steps w = (Returned, w2) \<and>
              leave ws room_id w1 = (None, w2) \<and>
              console w2 = console w1 @ [ClientDisconnected room_id] \<and>
              (\<forall>r' ms'. rooms w2 r' = Some ms' \<longrightarrow> ws \<notin> set ms')"
proof -
  have "held_once ws room_id (rooms w)"
    using ok r m by (rule held_once_registry_ok)
  from receive_loop_held_once [OF this o] loop
  have "held_once ws room_id (rooms w1)" by simp
  from leave_held_once [OF this] obtain w2 where l: "leave ws room_id w1 = (None, w2)"
    and c: "console w2 = console w1 @ [ClientDisconnected room_id]"
    and g: "\<forall>r' ms'. rooms w2 r' = Some ms' \<longrightarrow> ws \<notin> set ms' \<and> ms' \<noteq> []"
    by blast
  have "serve ws room_id steps w = (Returned, w2)"
    using loop l by (simp add: serve_def)
  with l c g show ?thesis by blast
qed

theorem disconnect_triggers_one_leave_witness:
  "serve 1 ''r1'' [Step [] (RecvRaises WebSocketDisconnect) []]
     \<lparr>rooms = [''r1'' \<mapsto> [1, 2]], outbox = [], console = []\<rparr> =
     (Returned, \<lparr>rooms = [''r1'' \<mapsto> [2]], outbox = [],
                 console = [ClientDisconnected ''r1'']\<rparr>) \<and>
   serve 1 ''r1''
     [Step [OtherJoin 3 ''r1''] (Recv (JObj [(str ''type'', JStr (str ''ice''))]))
        [([], Some WebSocketDisconnect)]]
     \<lparr>rooms = [''r1'' \<mapsto> [1, 2]], outbox = [], console = []\<rparr> =
     (Returned, \<lparr>rooms = [''r1'' \<mapsto> [2, 3]], outbox = [],
                 console = [ClientDisconnected ''r1'']\<rparr>)"
proof -
  let ?w = "\<lparr>rooms = [''r1'' \<mapsto> [1::nat, 2]], outbox = [], console = []\<rparr>"
  let ?w1 = "\<lparr>rooms = [''r1'' \<mapsto> [1::nat, 2, 3]], outbox = [], console = []\<rparr>"
  let ?s1 = "[Step [] (RecvRaises WebSocketDisconnect) []]"
  let ?s2 = "[Step [OtherJoin 3 ''r1''] (Recv (JObj [(str ''type'', JStr (str ''ice''))]))
                [([], Some WebSocketDisconnect)]]"
  have ok: "registry_ok (rooms ?w)"
    by (simp add: registry_ok_def)
  have r: "rooms ?w ''r1'' = Some [1, 2]" and m: "(1::nat) \<in> set [1, 2]"
    by simp_all
  have o1: "others_only 1 ?s1" and o2: "others_only 1 ?s2"
    by (simp_all add: others_only_def)
  have l1: "receive_loop 1 ''r1'' ?s1 ?w = (Raised WebSocketDisconnect, ?w)"
    by simp
  have l2: "receive_loop 1 ''r1'' ?s2 ?w = (Raised WebSocketDisconnect, ?w1)"
    by (simp add: handle_data_def log_message_def dict_get_def classify_def str_def Let_def
        broadcast.simps act_join)
  have lv1: "leave 1 ''r1'' ?w =
              (None, \<lparr>rooms = [''r1'' \<mapsto> [2]], outbox = [],
                       console = [ClientDisconnected ''r1'']\<rparr>)"
    by (simp add: leave_def)
  have lv2: "leave 1 ''r1'' ?w1 =
              (None, \<lparr>rooms = [''r1'' \<mapsto> [2, 3]], outbox = [],
                       console = [ClientDisconnected ''r1'']\<rparr>)"
    by (simp add: leave_def)
  from disconnect_triggers_one_leave [OF ok r m o1 l1] lv1
  have "serve 1 ''r1'' ?s1 ?w =
          (Returned, \<lparr>rooms = [''r1'' \<mapsto> [2]], outbox = [],
                      console = [ClientDisconnected ''r1'']\<rparr>)"
    by auto
  moreover from disconnect_triggers_one_leave [OF ok r m o2 l2] lv2
  have "serve 1 ''r1'' ?s2 ?w =
          (Returned, \<lparr>rooms = [''r1'' \<mapsto> [2, 3]], outbox = [],
                      console = [ClientDisconnected ''r1'']\<rparr>)"
    by auto
  ultimately show ?thesis by simp
qed

text \<open>
  C5, as stated, fails. Connection 1 is the only member of \<open>r1\<close>; it sends a message
  whose type holds a lone surrogate, \<^verbatim>\<open>print\<close> raises, and the coroutine ends with
  \<^verbatim>\<open>UnicodeEncodeError\<close>, which the \<^verbatim>\<open>except\<close> clause does not catch: the
  connection is over, and it is still the member of \<open>r1\<close>.
\<close>

theorem handler_error_keeps_membership_counterexample:
  "serve 1 ''r1'' [Step [] (Recv (JObj [(str ''type'', JStr [0xD800])])) []]
     \<lparr>rooms = [''r1'' \<mapsto> [1]], outbox = [], console = []\<rparr> =
   (Raised UnicodeEncodeError, \<lparr>rooms = [''r1'' \<mapsto> [1]], outbox = [], console = []\<rparr>)"
  by (simp add: serve_def handle_data_def log_message_def dict_get_def classify_def str_def
      Let_def print_line_def encodable_def)

text \<open>
  C5, amended. For a connection registered in its room, in a registry that satisfies
  the invariant, with the other coroutines joining and leaving for other connections
  only: after its receive loop is left by \<^verbatim>\<open>WebSocketDisconnect\<close> the endpoint
  returns, the connection is a member of no room, no room list is empty, the room has
  no entry any more if the connection was its last member, and every other room is as
  it was at the raise.
\<close>

theorem disconnect_clears_membership:
  assumes ok: "registry_ok (rooms w)" and r: "rooms w room_id = Some ms" and m: "ws \<in> set ms"
    and o: "others_only ws steps"
    and loop: "receive_loop ws room_id steps w = (Raised WebSocketDisconnect, w1)"
  shows "\<exists>w2. serve ws room_id steps w = (Returned, w2) \<and>
              (\<forall>r' ms'. rooms w2 r' = Some ms' \<longrightarrow> ws \<notin> set ms' \<and> ms' \<noteq> []) \<and>
              (rooms w1 room_id = Some [ws] \<longrightarrow> rooms w2 room_id = None) \<and>
              (\<forall>r'. r' \<noteq> room_id \<longrightarrow> rooms w2 r' = rooms w1 r')"
proof -
  have "held_once ws room_id (rooms w)"
    using ok r m by (rule held_once_registry_ok)
  from receive_loop_held_once [OF this o] loop
  have "held_once ws room_id (rooms w1)" by simp
  from leave_held_once [OF this] obtain w2 where l: "leave ws room_id w1 = (None, w2)"
    and g: "\<forall>r' ms'. rooms w2 r' = Some ms' \<longrightarrow> ws \<notin> set ms' \<and> ms' \<noteq> []"
    and d: "rooms w1 room_id = Some [ws] \<longrightarrow> rooms w2 room_id = None"
    and u: "\<forall>r'. r' \<noteq> room_id \<longrightarrow> rooms w2 r' = rooms w1 r'"
    by blast
  have "serve ws room_id steps w = (Returned, w2)"
    using loop l by (simp add: serve_def)
  with g d u show ?thesis by blast
qed

theorem disconnect_clears_membership_witness:
  "(\<exists>w2. serve 1 ''r1'' [Step [] (RecvRaises WebSocketDisconnect) []]
            \<lparr>rooms = [''r1'' \<mapsto> [1], ''r2'' \<mapsto> [2, 3]], outbox = [], console = []\<rparr> =
              (Returned, w2) \<and>
          rooms w2 ''r1'' = None \<and> rooms w2 ''r2'' = Some [2, 3]) \<and>
   (\<exists>w2. serve 2 ''r2'' [Step [OtherLeave 1 ''r1''] (RecvRaises WebSocketDisconnect) []]
            \<lparr>rooms = [''r1'' \<mapsto> [1], ''r2'' \<mapsto> [2, 3]], outbox = [], console = []\<rparr> =
              (Returned, w2) \<and>
          rooms w2 ''r1'' = None \<and> (\<forall>ms. rooms w2 ''r2'' = Some ms \<longrightarrow> 2 \<notin> set ms \<and> ms \<noteq> []))"
proof -
  let ?w = "\<lparr>rooms = [''r1'' \<mapsto> [1::nat], ''r2'' \<mapsto> [2, 3]], outbox = [], console = []\<rparr>"
  let ?s1 = "[Step [] (RecvRaises WebSocketDisconnect) []]"
  let ?s2 = "[Step [OtherLeave 1 ''r1''] (RecvRaises WebSocketDisconnect) []]"
  let ?w1 = "\<lparr>rooms = [''r2'' \<mapsto> [2::nat, 3]], outbox = [], console = []\<rparr>"
  have ok: "registry_ok (rooms ?w)"
    unfolding registry_ok_def by (simp split: if_splits)
  have r1: "rooms ?w ''r1'' = Some [1]" and m1: "(1::nat) \<in> set [1]"
    and r2: "rooms ?w ''r2'' = Some [2, 3]" and m2: "(2::nat) \<in> set [2, 3]"
    by simp_all
  have o1: "others_only 1 ?s1" and o2: "others_only 2 ?s2"
    by (simp_all add: others_only_def)
  have l1: "receive_loop 1 ''r1'' ?s1 ?w = (Raised WebSocketDisconnect, ?w)"
    by simp
  have l2: "receive_loop 2 ''r2'' ?s2 ?w = (Raised WebSocketDisconnect, ?w1)"
    by (simp add: act_leave)
  from disconnect_clears_membership [OF ok r1 m1 o1 l1]
  obtain w2 where a1: "serve 1 ''r1'' ?s1 ?w = (Returned, w2)"
    and b1: "rooms ?w ''r1'' = Some [1] \<longrightarrow> rooms w2 ''r1'' = None"
    and c1: "\<forall>r'. r' \<noteq> ''r1'' \<longrightarrow> rooms w2 r' = rooms ?w r'"
    by blast
  from b1 have e1: "rooms w2 ''r1'' = None" by simp
  from c1 have d1: "rooms w2 ''r2'' = Some [2, 3]" by simp
  from disconnect_clears_membership [OF ok r2 m2 o2 l2]
  obtain w3 where a2: "serve 2 ''r2'' ?s2 ?w = (Returned, w3)"
    and b2: "\<forall>r' ms'. rooms w3 r' = Some ms' \<longrightarrow> 2 \<notin> set ms' \<and> ms' \<noteq> []"
    and c2: "\<forall>r'. r' \<noteq> ''r2'' \<longrightarrow> rooms w3 r' = rooms ?w1 r'"
    by blast
  from c2 have d2: "rooms w3 ''r1'' = None" by simp
  from a1 e1 d1 a2 b2 d2 show ?thesis by blast
qed

text \<open>
  C6, as stated, fails. A payload that is valid JSON but not an object (here an array)
  makes \<^verbatim>\<open>data.get\<close> raise \<^verbatim>\<open>AttributeError\<close>, which nothing catches: the coroutine
  ends, the message that follows is never read, and nothing is relayed.
\<close>

theorem non_object_payload_ends_handler_counterexample:
  "serve 1 ''r1'' [Step [] (Recv (JArr [JStr (str ''hi'')])) [],
                   Step [] (Recv (JObj [(str ''type'', JStr (str ''chat''))])) []]
     \<lparr>rooms = [''r1'' \<mapsto> [1, 2]], outbox = [], console = []\<rparr> =
   (Raised AttributeError, \<lparr>rooms = [''r1'' \<mapsto> [1, 2]], outbox = [], console = []\<rparr>)"
  by (simp add: serve_def handle_data_def)

text \<open>
  C6, amended. For every value that \<^verbatim>\<open>receive_json\<close> returns as a dict and that
  either has no \<open>type\<close> field or has a log line that is printed without error, in a
  room with an entry, with every send returning and nothing written to \<open>rooms\<close>
  meanwhile: the iteration raises nothing and the receive loop goes on with the next
  inbound event; the dict is relayed unmodified to every member other than the
  sender; and a dict with no \<open>type\<close> field is classified unknown and logged as such.
\<close>

theorem object_without_type_is_relayed:
  assumes r: "rooms w room_id = Some members" and q: "quiet sends"
    and p: "map_of flds (str ''type'') = None \<or> fst (log_message room_id flds w) = None"
  shows "\<exists>w'. handle_data ws room_id (JObj flds) sends w = (None, w') \<and>
              receive_loop ws room_id (Step [] (Recv (JObj flds)) sends # steps) w =
                receive_loop ws room_id steps w' \<and>
              rooms w' = rooms w \<and>
              outbox w' = outbox w @ map (\<lambda>c. (c, JObj flds)) (filter (\<lambda>c. c \<noteq> ws) members) \<and>
              (map_of flds (str ''type'') = None \<longrightarrow>
                 classify (dict_get flds (str ''type'') JNull) = Unknown \<and>
                 console w' = console w @ [UnknownType room_id JNull])"
proof -
  have t: "map_of flds (str ''type'') = None \<longrightarrow>
          classify (dict_get flds (str ''type'') JNull) = Unknown \<and>
          log_message room_id flds w = (None, w\<lparr>console := console w @ [UnknownType room_id JNull]\<rparr>)"
    by (simp add: log_message_def dict_get_def classify_def print_line_def)
  with p have "fst (log_message room_id flds w) = None" by auto
  then obtain w1 where lg: "log_message room_id flds w = (None, w1)"
    by (cases "log_message room_id flds w") simp
  from log_message_rooms [of room_id flds w] lg have r1: "rooms w1 = rooms w" by simp
  from t lg have c: "map_of flds (str ''type'') = None \<longrightarrow>
      classify (dict_get flds (str ''type'') JNull) = Unknown \<and>
      console w1 = console w @ [UnknownType room_id JNull]"
    by auto
  show ?thesis
    using c r1 by (simp add: handle_data_quiet [OF r q lg])
qed

theorem object_without_type_is_relayed_witness:
  "\<exists>w'. receive_loop 1 ''r1'' [Step [] (Recv (JObj [(str ''text'', JStr (str ''hi''))])) []]
           \<lparr>rooms = [''r1'' \<mapsto> [1, 2]], outbox = [], console = []\<rparr> = (Waiting, w') \<and>
         outbox w' = [(2, JObj [(str ''text'', JStr (str ''hi''))])] \<and>
         console w' = [UnknownType ''r1'' JNull]"
proof -
  let ?w = "\<lparr>rooms = [''r1'' \<mapsto> [1::nat, 2]], outbox = [], console = []\<rparr>"
  let ?f = "[(str ''text'', JStr (str ''hi''))]"
  have r: "rooms ?w ''r1'' = Some [1, 2]" and q: "quiet []"
    and ty: "map_of ?f (str ''type'') = None"
    by (simp_all add: quiet_def str_def)
  from ty have p: "map_of ?f (str ''type'') = None \<or> fst (log_message ''r1'' ?f ?w) = None" ..
  from object_without_type_is_relayed [OF r q p, of 1 "[]"] ty
  obtain w' where "receive_loop 1 ''r1'' [Step [] (Recv (JObj ?f)) []] ?w =
                     receive_loop 1 ''r1'' [] w'"
    and "outbox w' = outbox ?w @ map (\<lambda>c. (c, JObj ?f)) (filter (\<lambda>c. c \<noteq> 1) [1, 2])"
    and "console w' = console ?w @ [UnknownType ''r1'' JNull]"
    by blast
  then show ?thesis by simp
qed




text \<open>
  C8. Join raises nothing, for every room identifier, connection and state. A room with
  no entry gets the entry \<open>[ws]\<close>; a room with an entry keeps its members, in order,
  with \<open>ws\<close> appended; no other room changes; the member count of the room grows by
  exactly one and is the count that is printed; nothing is sent.
\<close>

theorem join_always_succeeds:
  "\<exists>w'. join ws room_id w = (None, w') \<and>
         (rooms w room_id = None \<longrightarrow> rooms w' room_id = Some [ws]) \<and>
         (\<forall>ms. rooms w room_id = Some ms \<longrightarrow> rooms w' room_id = Some (ms @ [ws])) \<and>
         (\<forall>r. r \<noteq> room_id \<longrightarrow> rooms w' r = rooms w r) \<and>
         member_count (rooms w') room_id = member_count (rooms w) room_id + 1 \<and>
         console w' = console w @ [ClientConnected room_id (member_count (rooms w') room_id)] \<and>
         outbox w' = outbox w"
  by (simp add: join_ok member_count_def split: option.splits)

theorem join_always_succeeds_witness:
  "\<exists>w1 w2. join 1 ''abc'' \<lparr>rooms = Map.empty, outbox = [], console = []\<rparr> = (None, w1) \<and>
           rooms w1 ''abc'' = Some [1] \<and>
           join 2 ''abc'' w1 = (None, w2) \<and>
           rooms w2 ''abc'' = Some [1, 2] \<and>
           member_count (rooms w2) ''abc'' = 2"
proof -
  let ?w = "\<lparr>rooms = Map.empty :: registry, outbox = [], console = []\<rparr>"
  from join_always_succeeds [of 1 "''abc''" ?w]
  obtain w1 where a: "join 1 ''abc'' ?w = (None, w1)" and b: "rooms w1 ''abc'' = Some [1]"
    and c: "member_count (rooms w1) ''abc'' = member_count (rooms ?w) ''abc'' + 1"
    by auto
  from join_always_succeeds [of 2 "''abc''" w1] b
  obtain w2 where d: "join 2 ''abc'' w1 = (None, w2)" and e: "rooms w2 ''abc'' = Some [1, 2]"
    and f: "member_count (rooms w2) ''abc'' = member_count (rooms w1) ''abc'' + 1"
    by auto
  have "member_count (rooms w2) ''abc'' = 2"
    using c f by (simp add: member_count_def)
  with a b d e show ?thesis by blast
qed

text \<open>
  C9. When the sender is the only member of its room, Broadcast sends nothing, reaches
  no suspension, raises nothing and leaves the state as it is, whatever the payload
  and whatever the sends and the other coroutines would do. Handling a message (a
  dict) from that state sends nothing and leaves the registry unchanged, the room
  still holding exactly the sender; it raises only what the \<^verbatim>\<open>print\<close> of the log line
  raises, and when that is nothing the receive loop goes on.
\<close>

theorem sole_member_broadcast_is_silent:
  assumes r: "rooms w room_id = Some [ws]"
  shows "broadcast ws room_id data 0 sends w = (None, w) \<and>
         (\<exists>w'. handle_data ws room_id (JObj flds) sends w = (fst (log_message room_id flds w), w') \<and>
               outbox w' = outbox w \<and>
               rooms w' = rooms w \<and>
               rooms w' room_id = Some [ws] \<and>
               (fst (log_message room_id flds w) = None \<longrightarrow>
                  receive_loop ws room_id (Step [] (Recv (JObj flds)) sends # steps) w =
                    receive_loop ws room_id steps w'))"
proof -
  have b: "broadcast ws room_id data 0 sends v = (None, v)" if "rooms v room_id = Some [ws]"
    for v :: world and data
    using that by (simp add: broadcast.simps [of ws room_id data 0] broadcast.simps [of ws room_id data "Suc 0"])
  obtain res w1 where lg: "log_message room_id flds w = (res, w1)"
    by (cases "log_message room_id flds w")
  from log_message_rooms [of room_id flds w] lg
  have same: "rooms w1 = rooms w" "outbox w1 = outbox w" by simp_all
  with r have r1: "rooms w1 room_id = Some [ws]" by simp
  have h: "handle_data ws room_id (JObj flds) sends w = (res, w1)"
    using lg r1 b [OF r1] by (cases res) (simp_all add: handle_data_def)
  then have "fst (log_message room_id flds w) = None \<longrightarrow>
      receive_loop ws room_id (Step [] (Recv (JObj flds)) sends # steps) w =
        receive_loop ws room_id steps w1"
    using lg by simp
  with h lg same r1 b [OF r] show ?thesis by auto
qed

theorem sole_member_broadcast_is_silent_witness:
  "\<exists>w'. websocket_endpoint 7 ''r1''
           [Step [] (Recv (JObj [(str ''type'', JStr (str ''chat''))]))
              [([OtherJoin 8 ''r1''], Some OtherError)]]
           \<lparr>rooms = Map.empty, outbox = [], console = []\<rparr> = (Waiting, w') \<and>
         outbox w' = [] \<and> rooms w' = [''r1'' \<mapsto> [7]]"
proof -
  let ?w = "\<lparr>rooms = [''r1'' \<mapsto> [7::nat]], outbox = [],
             console = [ClientConnected ''r1'' 1]\<rparr>"
  let ?f = "[(str ''type'', JStr (str ''chat''))]"
  let ?s = "[([OtherJoin 8 ''r1''], Some OtherError)]"
  have j: "join 7 ''r1'' \<lparr>rooms = Map.empty, outbox = [], console = []\<rparr> = (None, ?w)"
    by (simp add: join_def)
  have r: "rooms ?w ''r1'' = Some [7]" by simp
  have p: "fst (log_message ''r1'' ?f ?w) = None"
    by (simp add: log_message_def dict_get_def classify_def str_def Let_def print_line_def
        encodable_def)
  from sole_member_broadcast_is_silent [OF r, of "JObj ?f" ?s ?f "[]"] p
  obtain w' where
    b: "receive_loop 7 ''r1'' [Step [] (Recv (JObj ?f)) ?s] ?w = receive_loop 7 ''r1'' [] w'"
    and c: "outbox w' = outbox ?w" "rooms w' = rooms ?w"
    by blast
  from j b have "websocket_endpoint 7 ''r1'' [Step [] (Recv (JObj ?f)) ?s]
           \<lparr>rooms = Map.empty, outbox = [], console = []\<rparr> = (Waiting, w')"
    by (simp add: websocket_endpoint_def serve_def)
  with c show ?thesis by simp
qed

text \<open>
  C10, as stated, fails. A type that is a string holding a lone surrogate is classified
  unknown, the \<^verbatim>\<open>print\<close> of the else branch raises, and the message is not relayed.
\<close>

theorem unknown_type_not_relayed_counterexample:
  "classify (JStr [0xDC00]) = Unknown \<and>
   handle_data 1 ''r1'' (JObj [(str ''type'', JStr [0xDC00]), (str ''text'', JStr (str ''hi''))]) []
     \<lparr>rooms = [''r1'' \<mapsto> [1, 2]], outbox = [], console = []\<rparr> =
   (Some UnicodeEncodeError, \<lparr>rooms = [''r1'' \<mapsto> [1, 2]], outbox = [], console = []\<rparr>)"
  by (simp add: handle_data_def log_message_def dict_get_def classify_def str_def Let_def
      print_line_def encodable_def)

text \<open>
  C10, amended. The value of \<open>type\<close> is classified content exactly when it is one of
  the strings \<open>chat\<close>, \<open>image\<close>, \<open>file\<close>, signal exactly when it is one of
  \<open>offer\<close>, \<open>answer\<close>, \<open>ice\<close>, and unknown in every other case: a case variant,
  a padded string, the empty string, a value that is not a string, an absent field.
  A message classified unknown whose type can be printed (it is not a string that
  holds a surrogate) is logged as such and relayed all the same, in a room with an
  entry, with every send returning and nothing written to \<open>rooms\<close> meanwhile, to
  every member other than the sender.
\<close>

theorem classification_is_exact_match:
  "(classify t = Content \<longleftrightarrow>
      (\<exists>s. t = JStr s \<and> s \<in> {str ''chat'', str ''image'', str ''file''})) \<and>
   (classify t = Signal \<longleftrightarrow>
      (\<exists>s. t = JStr s \<and> s \<in> {str ''offer'', str ''answer'', str ''ice''})) \<and>
   (classify t = Unknown \<longleftrightarrow>
      t \<notin> JStr ` {str ''chat'', str ''image'', str ''file'',
                  str ''offer'', str ''answer'', str ''ice''}) \<and>
   classify (JStr (str ''Chat'')) = Unknown \<and> classify (JStr (str ''CHAT'')) = Unknown \<and>
   classify (JStr (str '' chat'')) = Unknown \<and> classify (JStr (str ''chat '')) = Unknown \<and>
   classify (JStr (str ''ICE'')) = Unknown \<and> classify (JStr []) = Unknown \<and>
   classify JNull = Unknown \<and> classify (JBool b) = Unknown \<and> classify (JNum n) = Unknown \<and>
   classify (JFloat q) = Unknown \<and> classify (JArr xs) = Unknown \<and> classify (JObj kvs) = Unknown \<and>
   (map_of flds (str ''type'') = None \<longrightarrow> classify (dict_get flds (str ''type'') JNull) = Unknown) \<and>
   (classify (dict_get flds (str ''type'') JNull) = Unknown \<longrightarrow>
    printable (dict_get flds (str ''type'') JNull) \<longrightarrow>
    rooms w room_id = Some members \<longrightarrow> quiet sends \<longrightarrow>
    handle_data ws room_id (JObj flds) sends w =
      (None, w\<lparr>console := console w @ [UnknownType room_id (dict_get flds (str ''type'') JNull)],
               outbox := outbox w @
                 map (\<lambda>c. (c, JObj flds)) (filter (\<lambda>c. c \<noteq> ws) members)\<rparr>))"
proof -
  have a: "classify t = Content \<longleftrightarrow>
      (\<exists>s. t = JStr s \<and> s \<in> {str ''chat'', str ''image'', str ''file''})"
    by (auto simp: classify_def)
  have b: "classify t = Signal \<longleftrightarrow>
      (\<exists>s. t = JStr s \<and> s \<in> {str ''offer'', str ''answer'', str ''ice''})"
    by (auto simp: classify_def str_def)
  have c: "classify t = Unknown \<longleftrightarrow>
      t \<notin> JStr ` {str ''chat'', str ''image'', str ''file'',
                  str ''offer'', str ''answer'', str ''ice''}"
    by (auto simp: classify_def)
  have d: "classify (JStr (str ''Chat'')) = Unknown" "classify (JStr (str ''CHAT'')) = Unknown"
    "classify (JStr (str '' chat'')) = Unknown" "classify (JStr (str ''chat '')) = Unknown"
    "classify (JStr (str ''ICE'')) = Unknown" "classify (JStr []) = Unknown"
    "classify JNull = Unknown" "classify (JBool b) = Unknown" "classify (JNum n) = Unknown"
    "classify (JFloat q) = Unknown"
    "classify (JArr xs) = Unknown" "classify (JObj kvs) = Unknown"
    by (simp_all add: classify_def str_def)
  have e: "map_of flds (str ''type'') = None \<longrightarrow>
      classify (dict_get flds (str ''type'') JNull) = Unknown"
    by (simp add: dict_get_def classify_def)
  have f: "classify (dict_get flds (str ''type'') JNull) = Unknown \<longrightarrow>
    printable (dict_get flds (str ''type'') JNull) \<longrightarrow>
    rooms w room_id = Some members \<longrightarrow> quiet sends \<longrightarrow>
    handle_data ws room_id (JObj flds) sends w =
      (None, w\<lparr>console := console w @ [UnknownType room_id (dict_get flds (str ''type'') JNull)],
               outbox := outbox w @
                 map (\<lambda>c. (c, JObj flds)) (filter (\<lambda>c. c \<noteq> ws) members)\<rparr>)"
  proof (intro impI)
    assume u: "classify (dict_get flds (str ''type'') JNull) = Unknown"
      and pr: "printable (dict_get flds (str ''type'') JNull)"
      and r: "rooms w room_id = Some members" and q: "quiet sends"
    have lg: "log_message room_id flds w =
           (None, w\<lparr>console := console w @ [UnknownType room_id (dict_get flds (str ''type'') JNull)]\<rparr>)"
      using u pr by (simp add: log_message_def print_line_def)
    show "handle_data ws room_id (JObj flds) sends w =
      (None, w\<lparr>console := console w @ [UnknownType room_id (dict_get flds (str ''type'') JNull)],
               outbox := outbox w @
                 map (\<lambda>c. (c, JObj flds)) (filter (\<lambda>c. c \<noteq> ws) members)\<rparr>)"
      by (simp add: handle_data_quiet [OF r q lg])
  qed
  from a b c d e f show ?thesis by blast
qed

theorem classification_is_exact_match_witness:
  "handle_data 1 ''r1'' (JObj [(str ''type'', JStr (str ''CHAT'')), (str ''text'', JStr (str ''hi''))])
     []
     \<lparr>rooms = [''r1'' \<mapsto> [1, 2]], outbox = [], console = []\<rparr> =
   (None, \<lparr>rooms = [''r1'' \<mapsto> [1, 2]],
           outbox = [(2, JObj [(str ''type'', JStr (str ''CHAT'')), (str ''text'', JStr (str ''hi''))])],
           console = [UnknownType ''r1'' (JStr (str ''CHAT''))]\<rparr>)"
proof -
  let ?w = "\<lparr>rooms = [''r1'' \<mapsto> [1::nat, 2]], outbox = [], console = []\<rparr>"
  let ?f = "[(str ''type'', JStr (str ''CHAT'')), (str ''text'', JStr (str ''hi''))]"
  have t: "dict_get ?f (str ''type'') JNull = JStr (str ''CHAT'')" by (simp add: dict_get_def)
  have u: "classify (dict_get ?f (str ''type'') JNull) = Unknown"
    unfolding t
    using classification_is_exact_match [where t = "JStr (str ''CHAT'')"]
    by simp
  have pr: "printable (dict_get ?f (str ''type'') JNull)"
    unfolding t by (simp add: encodable_def str_def)
  have r: "rooms ?w ''r1'' = Some [1, 2]" and q: "quiet []"
    by (simp_all add: quiet_def)
  from classification_is_exact_match
    [where flds = ?f and w = ?w and room_id = "''r1''" and members = "[1, 2]" and ws = 1
       and sends = "[]"] u pr r q
  have "handle_data 1 ''r1'' (JObj ?f) [] ?w =
      (None, ?w\<lparr>console := console ?w @ [UnknownType ''r1'' (dict_get ?f (str ''type'') JNull)],
               outbox := outbox ?w @ map (\<lambda>c. (c, JObj ?f)) (filter (\<lambda>c. c \<noteq> 1) [1, 2])\<rparr>)"
    by blast
  then show ?thesis by (simp add: t)
qed

end
